theory Spec2Isabelle
  imports Complex_Main
begin

section \<open>Calendar dates\<close>

text \<open>
  A JavaScript \<^verbatim>\<open>Date\<close> is used by the scheduler only through its local calendar day:
  \<^verbatim>\<open>setDate(getDate() + 1)\<close> moves to the next calendar day, \<^verbatim>\<open>getDay()\<close> reads the
  weekday, and \<^verbatim>\<open>getFullYear/getMonth/getDate\<close> read the civil date. A date is therefore
  modelled by its day number, counted from 1970-01-01 (day 0, a Thursday). The time of
  day is carried along unchanged by the source and never read, so it is not part of the
  model; the finite range of \<^verbatim>\<open>Date\<close> and the value Invalid Date are outside it.
\<close>

type_synonym date = int

text \<open>\<^verbatim>\<open>Date.prototype.getDay\<close>: 0 = Sunday, ..., 6 = Saturday.\<close>

definition getDay :: "date \<Rightarrow> int" where
  "getDay d = (d + 4) mod 7"

section \<open>addBusinessDays (CreateTestPlan.tsx, lines 23-37 and 3330-3343)\<close>

text \<open>
  \<^verbatim>\<open>
  function addBusinessDays(startDate: Date, numberOfDays: number): Date {
    const result = new Date(startDate);
    let daysAdded = 0;
    while (daysAdded < numberOfDays) {
      result.setDate(result.getDate() + 1);
      const dayOfWeek = result.getDay();
      // Skip weekends (0 = Sunday, 6 = Saturday)
      if (dayOfWeek !== 0 && dayOfWeek !== 6) {
        daysAdded++;
      }
    }
    return result;
  }
  \<close>
  The while loop is the recursive function below, on the loop variables \<open>result\<close> and
  \<open>daysAdded\<close>.
\<close>

function addBusinessDays_loop :: "date \<Rightarrow> int \<Rightarrow> int \<Rightarrow> date" where
  "addBusinessDays_loop result daysAdded numberOfDays =
     (if daysAdded < numberOfDays then
        (let result' = result + 1;
             dayOfWeek = getDay result'
         in if dayOfWeek \<noteq> 0 \<and> dayOfWeek \<noteq> 6
            then addBusinessDays_loop result' (daysAdded + 1) numberOfDays
            else addBusinessDays_loop result' daysAdded numberOfDays)
      else result)"
  by pat_completeness auto

text \<open>
  Termination: a counted day lowers the number of days still to add; a skipped day lowers
  the number of weekend days directly ahead (at most two).
\<close>

definition weekendAhead :: "date \<Rightarrow> nat" where
  "weekendAhead r = (if getDay (r + 1) = 6 then 2 else if getDay (r + 1) = 0 then 1 else 0)"

termination addBusinessDays_loop
proof (relation "measure (\<lambda>(r, a, n). 3 * nat (n - a) + weekendAhead r)", goal_cases)
  case 1
  show ?case by simp
next
  case (2 result daysAdded numberOfDays x xa)
  then show ?case
    by (auto simp add: weekendAhead_def getDay_def)
next
  case (3 result daysAdded numberOfDays x xa)
  then show ?case
    by (simp add: weekendAhead_def getDay_def) presburger
qed

definition addBusinessDays :: "date \<Rightarrow> int \<Rightarrow> date" where
  "addBusinessDays startDate numberOfDays = addBusinessDays_loop startDate 0 numberOfDays"

text \<open>The properties are stated with these two notions of the specification.\<close>

definition isWeekend :: "date \<Rightarrow> bool" where
  "isWeekend d = (getDay d = 0 \<or> getDay d = 6)"

text \<open>The number of non-weekend days between \<open>d\<close> (exclusive) and \<open>r\<close> (inclusive).\<close>

definition businessDaysBetween :: "date \<Rightarrow> date \<Rightarrow> int" where
  "businessDaysBetween d r = int (length (filter (\<lambda>k. \<not> isWeekend k) [d + 1..r]))"

section \<open>formatDateToInput (CreateTestPlan.tsx, lines 42-47)\<close>

text \<open>
  The civil date of a day number, as \<^verbatim>\<open>getFullYear\<close>, \<^verbatim>\<open>getMonth\<close> (0-based) and
  \<^verbatim>\<open>getDate\<close> read it from a \<^verbatim>\<open>Date\<close>: the proleptic Gregorian calendar, computed by
  eras of 400 years (146097 days) that start on 1 March.
\<close>

definition civilFromDays :: "date \<Rightarrow> int \<times> int \<times> int" where
  "civilFromDays d =
     (let z = d + 719468;
          era = z div 146097;
          doe = z mod 146097;
          yoe = (doe - doe div 1460 + doe div 36524 - doe div 146096) div 365;
          doy = doe - (365 * yoe + yoe div 4 - yoe div 100);
          mp = (5 * doy + 2) div 153;
          dd = doy - (153 * mp + 2) div 5 + 1;
          m = (if mp < 10 then mp + 3 else mp - 9);
          y = yoe + era * 400 + (if m \<le> 2 then 1 else 0)
      in (y, m, dd))"

definition getFullYear :: "date \<Rightarrow> int" where
  "getFullYear d = fst (civilFromDays d)"

definition getMonth :: "date \<Rightarrow> int" where
  "getMonth d = fst (snd (civilFromDays d)) - 1"

definition getDate :: "date \<Rightarrow> int" where
  "getDate d = snd (snd (civilFromDays d))"

text \<open>\<^verbatim>\<open>String(n)\<close> for an integer: its decimal digits, with a minus sign when negative.\<close>

fun decimalDigits :: "nat \<Rightarrow> string" where
  "decimalDigits n =
     (if n < 10 then [''0123456789'' ! n]
      else decimalDigits (n div 10) @ [''0123456789'' ! (n mod 10)])"

definition String_of_int :: "int \<Rightarrow> string" where
  "String_of_int i =
     (if i < 0 then CHR ''-'' # decimalDigits (nat (- i)) else decimalDigits (nat i))"

text \<open>\<^verbatim>\<open>s.padStart(n, '0')\<close>.\<close>

definition padStart :: "nat \<Rightarrow> string \<Rightarrow> string" where
  "padStart n s = replicate (n - length s) CHR ''0'' @ s"

text \<open>
  \<^verbatim>\<open>
  function formatDateToInput(date: Date): string {
    const year = date.getFullYear();
    const month = String(date.getMonth() + 1).padStart(2, '0');
    const day = String(date.getDate()).padStart(2, '0');
    return `${year}-${month}-${day}`;
  }
  \<close>
\<close>

definition formatDateToInput :: "date \<Rightarrow> string" where
  "formatDateToInput d =
     (let year = getFullYear d;
          month = padStart 2 (String_of_int (getMonth d + 1));
          day = padStart 2 (String_of_int (getDate d))
      in String_of_int year @ ''-'' @ month @ ''-'' @ day)"

section \<open>The timeline effect (CreateTestPlan.tsx, lines 1150-1176)\<close>

text \<open>
  \<^verbatim>\<open>
  useEffect(() => {
    try {
      const totalTestDays = Object.values(masterChecks).reduce((sum, phase) => {
        if (phase && typeof phase === 'object' && 'checked' in phase && 'days' in phase) {
          return sum + (phase.checked ? (phase.days || 0) : 0);
        }
        return sum;
      }, 0);
      const totalDays = totalTestDays + (reviewDays || 0);
      if (totalDays > 0) {
        const today = new Date();
        const startDate = today;
        const endDate = addBusinessDays(startDate, totalDays);
        setTimeline((prev) => ({
          ...prev,
          start: formatDateToInput(startDate),
          end: formatDateToInput(endDate),
        }));
      }
    } catch (error) {
      console.error('Error calculating timeline:', error);
    }
  }, [masterChecks, reviewDays]);
  \<close>

  A value stored under a key of \<^verbatim>\<open>masterChecks\<close> is either an object with both keys
  \<^verbatim>\<open>checked\<close> and \<^verbatim>\<open>days\<close>, or anything else (the guard of the reducer skips it). Of
  \<^verbatim>\<open>checked\<close> only its truthiness is read. \<^verbatim>\<open>days\<close> is a number: an integer, or a
  falsy value such as NaN, which \<^verbatim>\<open>|| 0\<close> turns into 0 (\<open>None\<close> below).
\<close>

datatype phase_value = PhaseObj (checked: bool) (days: "int option") | Malformed

text \<open>\<^verbatim>\<open>x || 0\<close> on a number.\<close>

definition orZero :: "int option \<Rightarrow> int" where
  "orZero x = (case x of None \<Rightarrow> 0 | Some k \<Rightarrow> k)"

datatype js_error = TypeError

text \<open>
  \<^verbatim>\<open>masterChecks\<close> is React state that is also restored from a saved draft of type
  \<^verbatim>\<open>any\<close>; \<open>None\<close> stands for \<^verbatim>\<open>null\<close> or \<^verbatim>\<open>undefined\<close>, on which
  \<^verbatim>\<open>Object.values\<close> throws a TypeError. Otherwise it is the list of its entries in key
  order.
\<close>

type_synonym master_checks = "(string \<times> phase_value) list option"

definition reducer :: "int \<Rightarrow> phase_value \<Rightarrow> int" where
  "reducer sumAcc phase =
     (case phase of
        PhaseObj c d \<Rightarrow> sumAcc + (if c then orZero d else 0)
      | Malformed \<Rightarrow> sumAcc)"

definition totalTestDays :: "master_checks \<Rightarrow> js_error + int" where
  "totalTestDays masterChecks =
     (case masterChecks of
        None \<Rightarrow> Inl TypeError
      | Some entries \<Rightarrow> Inr (foldl reducer 0 (map snd entries)))"

record timeline =
  start :: string
  end' :: string
  dependencies :: string

text \<open>
  The part of the page's state that the effect touches: the \<^verbatim>\<open>timeline\<close> state and the
  console, to which \<^verbatim>\<open>console.error\<close> appends.
\<close>

record page_state =
  timeline :: timeline
  console :: "(string \<times> js_error) list"

text \<open>
  The body of the \<^verbatim>\<open>try\<close> block, with \<^verbatim>\<open>new Date()\<close> as the parameter \<open>today\<close>:
  it either throws (\<open>Inl\<close>) or completes with the state it leaves (\<open>Inr\<close>). The updater
  passed to \<^verbatim>\<open>setTimeline\<close> is applied to the timeline of the state.
\<close>

definition tryBlock :: "master_checks \<Rightarrow> int option \<Rightarrow> date \<Rightarrow> page_state \<Rightarrow> js_error + page_state" where
  "tryBlock masterChecks reviewDays today s =
     (case totalTestDays masterChecks of
        Inl err \<Rightarrow> Inl err
      | Inr testDays \<Rightarrow>
          (let totalDays = testDays + orZero reviewDays in
           if totalDays > 0 then
             (let startDate = today;
                  endDate = addBusinessDays startDate totalDays
              in Inr (s\<lparr>timeline := (timeline s)\<lparr>start := formatDateToInput startDate,
                                                    end' := formatDateToInput endDate\<rparr>\<rparr>))
           else Inr s))"

text \<open>The effect: the \<^verbatim>\<open>try\<close> block, and the \<^verbatim>\<open>catch\<close> block that logs what it threw.\<close>

definition timelineEffect :: "master_checks \<Rightarrow> int option \<Rightarrow> date \<Rightarrow> page_state \<Rightarrow> page_state" where
  "timelineEffect masterChecks reviewDays today s =
     (case tryBlock masterChecks reviewDays today s of
        Inl err \<Rightarrow> s\<lparr>console := console s @ [(''Error calculating timeline:'', err)]\<rparr>
      | Inr s' \<Rightarrow> s')"

section \<open>The execution detail screen: scroll progress to active day (lines 545-731)\<close>

definition DETAIL_DAYS :: "string list" where
  "DETAIL_DAYS = [''Day 1'', ''Day 2'', ''Day 3'', ''Day 4'', ''Day 5'', ''Day 6'']"

text \<open>Of an entry of \<^verbatim>\<open>DETAIL_SECTIONS\<close> the handler reads \<^verbatim>\<open>days\<close> only.\<close>

record detail_section =
  section_id :: int
  section_title :: string
  section_days :: "int list"

definition DETAIL_SECTIONS :: "detail_section list" where
  "DETAIL_SECTIONS =
     [\<lparr>section_id = 0, section_title = ''Planning'', section_days = [0]\<rparr>,
      \<lparr>section_id = 1, section_title = ''Unit Tests'', section_days = [1]\<rparr>,
      \<lparr>section_id = 2, section_title = ''Integration'', section_days = [2]\<rparr>,
      \<lparr>section_id = 3, section_title = ''UI Validation'', section_days = [3]\<rparr>,
      \<lparr>section_id = 4, section_title = ''Non-Functional'', section_days = [4]\<rparr>,
      \<lparr>section_id = 5, section_title = ''Release'', section_days = [5]\<rparr>]"

text \<open>
  \<^verbatim>\<open>
  const unsubscribe = scrollYProgress.on("change", (v) => {
    const numDays = DETAIL_DAYS.length;
    const progressPercent = v * 100;
    let newActiveDay = 0;
    for (let i = numDays - 1; i >= 0; i--) {
      const dayPosition = (i / (numDays - 1)) * 100;
      if (progressPercent >= dayPosition) {
        newActiveDay = i;
        break;
      }
    }
    setActiveDay(newActiveDay);
    const sectionIndex = DETAIL_SECTIONS.findIndex(s => s.days.includes(newActiveDay));
    if (sectionIndex !== -1) {
      setActiveSection(sectionIndex);
    }
  });
  \<close>
  Numbers are real numbers here; the handler with the rounding of doubles follows in
  the next section. The one division by zero the loop can reach is \<open>0 / 0\<close>
  (a single marker, \<open>i = 0\<close>), which is NaN in JavaScript: \<open>None\<close> below, and every
  comparison with it is false.
\<close>

definition dayPosition :: "int \<Rightarrow> int \<Rightarrow> real option" where
  "dayPosition i numDays =
     (if numDays - 1 = 0 then None
      else Some (real_of_int i / real_of_int (numDays - 1) * 100))"

definition geNumber :: "real \<Rightarrow> real option \<Rightarrow> bool" where
  "geNumber x y = (case y of None \<Rightarrow> False | Some p \<Rightarrow> x \<ge> p)"

text \<open>The for loop, from its current \<open>i\<close>; it returns the final \<open>newActiveDay\<close>.\<close>

function scanDays :: "int \<Rightarrow> int \<Rightarrow> real \<Rightarrow> int" where
  "scanDays i numDays progressPercent =
     (if i \<ge> 0 then
        (if geNumber progressPercent (dayPosition i numDays) then i
         else scanDays (i - 1) numDays progressPercent)
      else 0)"
  by pat_completeness auto
termination
  by (relation "measure (\<lambda>(i, numDays, progressPercent). nat (i + 1))") auto

text \<open>\<^verbatim>\<open>Array.prototype.findIndex\<close>: the first index whose element satisfies \<open>P\<close>, or -1.\<close>

fun findIndex :: "('a \<Rightarrow> bool) \<Rightarrow> 'a list \<Rightarrow> int" where
  "findIndex P [] = - 1"
| "findIndex P (x # xs) =
     (if P x then 0 else (let r = findIndex P xs in if r = - 1 then - 1 else r + 1))"

record detail_state =
  activeSection_detail :: int
  activeDay :: int

text \<open>The handler, with the marker list and the section table as parameters.\<close>

definition onProgressChange ::
  "string list \<Rightarrow> detail_section list \<Rightarrow> real \<Rightarrow> detail_state \<Rightarrow> detail_state" where
  "onProgressChange detailDays detailSections v s =
     (let numDays = int (length detailDays);
          progressPercent = v * 100;
          newActiveDay = scanDays (numDays - 1) numDays progressPercent;
          s1 = s\<lparr>activeDay := newActiveDay\<rparr>;
          sectionIndex = findIndex (\<lambda>sec. newActiveDay \<in> set (section_days sec)) detailSections
      in if sectionIndex \<noteq> - 1 then s1\<lparr>activeSection_detail := sectionIndex\<rparr> else s1)"

text \<open>The handler of the source, and the state \<^verbatim>\<open>useState(0)\<close> initialises.\<close>

definition scrollYProgressChange :: "real \<Rightarrow> detail_state \<Rightarrow> detail_state" where
  "scrollYProgressChange = onProgressChange DETAIL_DAYS DETAIL_SECTIONS"

definition detailInit :: detail_state where
  "detailInit = \<lparr>activeSection_detail = 0, activeDay = 0\<rparr>"

text \<open>The state after a sequence of progress updates.\<close>

definition runProgress ::
  "string list \<Rightarrow> detail_section list \<Rightarrow> real list \<Rightarrow> detail_state \<Rightarrow> detail_state" where
  "runProgress detailDays detailSections vs s =
     foldl (\<lambda>st v. onProgressChange detailDays detailSections v st) s vs"

text \<open>The active day after each update of a sequence of progress updates.\<close>

fun activeDaySequence :: "real list \<Rightarrow> detail_state \<Rightarrow> int list" where
  "activeDaySequence [] s = []"
| "activeDaySequence (v # vs) s =
     (let s' = scrollYProgressChange v s in activeDay s' # activeDaySequence vs s')"

section \<open>The outline scroll-spy of the create form (lines 1017-1029 and 1313-1407)\<close>

definition OUTLINE_SECTIONS :: "(string \<times> string) list" where
  "OUTLINE_SECTIONS =
     [(''meta'', ''Project details''),
      (''scope'', ''Scope & objectives''),
      (''checklists'', ''Checklists''),
      (''schedule'', ''Schedule''),
      (''comments'', ''Comments'')]"

text \<open>
  What a scroll event reads from the document: the scroll metrics of the container
  \<^verbatim>\<open>root\<close>, the top of its bounding rectangle, and the top of the bounding rectangle
  of each section heading (by element id).
\<close>

record scroll_geometry =
  scrollTop :: real
  scrollHeight :: real
  clientHeight :: real
  containerTop :: real
  rectTop :: "string \<Rightarrow> real"

text \<open>
  The state: the React state \<^verbatim>\<open>activeSection\<close>, the flag \<^verbatim>\<open>isManualScrollRef.current\<close>,
  a clock in milliseconds, the due times of the pending \<^verbatim>\<open>setTimeout\<close> callbacks of
  \<^verbatim>\<open>scrollToSection\<close> (each of them sets the flag to false), and the offsets passed to
  \<^verbatim>\<open>container.scrollTo\<close>.
\<close>

record spy_state =
  activeSection :: string
  isManualScrollRef :: bool
  now :: nat
  timers :: "nat list"
  scrollRequests :: "real list"

definition spyInit :: spy_state where
  "spyInit = \<lparr>activeSection = ''meta'', isManualScrollRef = False, now = 0, timers = [],
              scrollRequests = []\<rparr>"

text \<open>
  \<^verbatim>\<open>OUTLINE_SECTIONS.map((s) => document.getElementById(s.id)).filter(Boolean)\<close>: the
  headings found in the document, by id.
\<close>

definition elementsOf :: "(string \<Rightarrow> bool) \<Rightarrow> string list" where
  "elementsOf present = filter present (map fst OUTLINE_SECTIONS)"

text \<open>
  \<^verbatim>\<open>
  const handleScroll = () => {
    if (!root) return;
    if (isManualScrollRef.current) {
      return;
    }
    const { scrollTop, scrollHeight, clientHeight } = root;
    if (scrollTop + clientHeight >= scrollHeight - 100) {
      setActiveSection(OUTLINE_SECTIONS[OUTLINE_SECTIONS.length - 1].id);
      return;
    }
    const containerTop = root.getBoundingClientRect().top;
    const threshold = containerTop + 160;
    for (let i = elements.length - 1; i >= 0; i--) {
      const element = elements[i];
      if (!element) continue;
      const rect = element.getBoundingClientRect();
      if (rect.top <= threshold) {
        setActiveSection(element.id);
        return;
      }
    }
    if (elements[0]) {
      setActiveSection(elements[0].id);
    }
  };
  \<close>
  \<^verbatim>\<open>root\<close> and every entry of \<^verbatim>\<open>elements\<close> are non-null where the handler is created.
  The for loop visits the elements from the last to the first: \<open>firstAtOrAbove\<close> on the
  reversed list.
\<close>

fun firstAtOrAbove :: "(string \<Rightarrow> real) \<Rightarrow> real \<Rightarrow> string list \<Rightarrow> string option" where
  "firstAtOrAbove topOf threshold [] = None"
| "firstAtOrAbove topOf threshold (e # es) =
     (if topOf e \<le> threshold then Some e else firstAtOrAbove topOf threshold es)"

text \<open>The handler below its guard on the flag.\<close>

definition autoDetect :: "string list \<Rightarrow> scroll_geometry \<Rightarrow> spy_state \<Rightarrow> spy_state" where
  "autoDetect elements g s =
     (if scrollTop g + clientHeight g \<ge> scrollHeight g - 100
      then s\<lparr>activeSection := fst (last OUTLINE_SECTIONS)\<rparr>
      else
        (let threshold = containerTop g + 160 in
         case firstAtOrAbove (rectTop g) threshold (rev elements) of
           Some e \<Rightarrow> s\<lparr>activeSection := e\<rparr>
         | None \<Rightarrow> (case elements of [] \<Rightarrow> s | e0 # _ \<Rightarrow> s\<lparr>activeSection := e0\<rparr>)))"

definition handleScroll :: "string list \<Rightarrow> scroll_geometry \<Rightarrow> spy_state \<Rightarrow> spy_state" where
  "handleScroll elements g s = (if isManualScrollRef s then s else autoDetect elements g s)"

text \<open>
  \<^verbatim>\<open>
  const scrollToSection = (id: string) => {
    const el = document.getElementById(id);
    const container = modalScrollRef.current;
    if (!el || !container) return;
    isManualScrollRef.current = true;
    const containerRect = container.getBoundingClientRect();
    const elementRect = el.getBoundingClientRect();
    const scrollOffset = elementRect.top - containerRect.top + container.scrollTop - 80;
    container.scrollTo({ top: scrollOffset, behavior: "smooth" });
    setActiveSection(id);
    setTimeout(() => {
      isManualScrollRef.current = false;
    }, 1000);
  };
  \<close>
  What a click reads from the document: whether the element and the container exist,
  and their positions.
\<close>

record jump_target =
  elementPresent :: bool
  containerPresent :: bool
  elementRectTop :: real
  containerRectTop :: real
  containerScrollTop :: real

definition scrollToSection :: "string \<Rightarrow> jump_target \<Rightarrow> spy_state \<Rightarrow> spy_state" where
  "scrollToSection sid t s =
     (if \<not> elementPresent t \<or> \<not> containerPresent t then s
      else
        (let scrollOffset = elementRectTop t - containerRectTop t + containerScrollTop t - 80
         in s\<lparr>isManualScrollRef := True,
               scrollRequests := scrollRequests s @ [scrollOffset],
               activeSection := sid,
               timers := timers s @ [now s + 1000]\<rparr>))"

text \<open>
  Time passes between two events: the clock advances by \<open>dt\<close> milliseconds and every
  pending callback that is due by then has run. The source never cancels a callback
  (the value of \<^verbatim>\<open>setTimeout\<close> is dropped), so a callback leaves \<open>timers\<close> only by
  running.
\<close>

definition elapse :: "nat \<Rightarrow> spy_state \<Rightarrow> spy_state" where
  "elapse dt s =
     (let t = now s + dt;
          due = filter (\<lambda>e. e \<le> t) (timers s)
      in s\<lparr>now := t,
            timers := filter (\<lambda>e. \<not> e \<le> t) (timers s),
            isManualScrollRef := (if due = [] then isManualScrollRef s else False)\<rparr>)"

text \<open>A run of the single-threaded event loop: events one after the other.\<close>

datatype spy_event =
    Elapse nat
  | Click string jump_target
  | ScrollEvent scroll_geometry

fun spyStep :: "string list \<Rightarrow> spy_state \<Rightarrow> spy_event \<Rightarrow> spy_state" where
  "spyStep elements s (Elapse dt) = elapse dt s"
| "spyStep elements s (Click sid t) = scrollToSection sid t s"
| "spyStep elements s (ScrollEvent g) = handleScroll elements g s"

definition spyRun :: "string list \<Rightarrow> spy_event list \<Rightarrow> spy_state \<Rightarrow> spy_state" where
  "spyRun elements evs s = foldl (spyStep elements) s evs"

text \<open>Events other than clicks, and the time a list of events takes.\<close>

fun isClick :: "spy_event \<Rightarrow> bool" where
  "isClick (Click sid t) = True"
| "isClick ev = False"

fun duration :: "spy_event list \<Rightarrow> nat" where
  "duration [] = 0"
| "duration (Elapse dt # evs) = dt + duration evs"
| "duration (ev # evs) = duration evs"

section \<open>The scroll progress handler over IEEE doubles\<close>

text \<open>
  JavaScript numbers are IEEE 754 doubles. A finite double is a rational number, and an
  arithmetic operation returns its exact result rounded to the nearest double, ties to
  the even significand. \<open>binade a\<close> is the exponent \<open>e\<close> with \<open>2 ^ e \<le> a < 2 ^ (e + 1)\<close>,
  for \<open>a > 0\<close>.
\<close>

function binadeUp :: "rat \<Rightarrow> int" where
  "binadeUp a = (if 2 \<le> a then binadeUp (a / 2) + 1 else 0)"
  by pat_completeness auto
termination
proof (relation "measure (\<lambda>a. nat \<lfloor>a\<rfloor>)", goal_cases)
  case 1
  show ?case by simp
next
  case (2 a)
  then have "a / 2 < of_int \<lfloor>a\<rfloor>" by linarith
  then have "\<lfloor>a / 2\<rfloor> < \<lfloor>a\<rfloor>" by (simp add: floor_less_iff)
  moreover from 2 have "0 < \<lfloor>a\<rfloor>" by linarith
  ultimately show ?case by simp
qed

function binadeDown :: "rat \<Rightarrow> int" where
  "binadeDown a = (if 0 < a \<and> a < 1 then binadeDown (a * 2) - 1 else 0)"
  by pat_completeness auto
termination
proof (relation "measure (\<lambda>a. nat \<lfloor>1 / a\<rfloor>)", goal_cases)
  case 1
  show ?case by simp
next
  case (2 a)
  then have a: "0 < a" "a < 1" by simp_all
  obtain x where x: "1 / a = x" by simp
  from a have "1 < 1 / a" by simp
  then have "1 < x" by (simp only: x)
  then have pos: "1 \<le> \<lfloor>x\<rfloor>" by linarith
  then have "(1::rat) \<le> of_int \<lfloor>x\<rfloor>" by simp
  moreover have "x < of_int \<lfloor>x\<rfloor> + 1" by linarith
  ultimately have "x / 2 < of_int \<lfloor>x\<rfloor>" by linarith
  then have lt: "\<lfloor>x / 2\<rfloor> < \<lfloor>x\<rfloor>" by (simp add: floor_less_iff)
  have "1 / (a * 2) = 1 / a / 2" by simp
  then have half: "1 / (a * 2) = x / 2" by (simp only: x)
  have "nat \<lfloor>1 / (a * 2)\<rfloor> < nat \<lfloor>1 / a\<rfloor>"
    unfolding half x using lt pos by linarith
  then show ?case by simp
qed

definition binade :: "rat \<Rightarrow> int" where
  "binade a = (if 1 \<le> a then binadeUp a else binadeDown a)"

text \<open>Rounding to the nearest integer, ties to the even one.\<close>

definition roundHalfEven :: "rat \<Rightarrow> int" where
  "roundHalfEven q =
     (let r = \<lfloor>q\<rfloor>; f = q - of_int r
      in if f < 1 / 2 then r else if 1 / 2 < f then r + 1 else if even r then r else r + 1)"

text \<open>
  The double nearest to \<open>x\<close>: a significand of 53 bits, and below \<open>2 ^ (- 1022)\<close> the
  subnormal doubles, multiples of \<open>2 ^ (- 1074)\<close>. Results beyond the largest double,
  where JavaScript gives Infinity, are not modelled: the handler's products stay below
  it as long as the progress is at most 1 in absolute value.
\<close>

definition toDouble :: "rat \<Rightarrow> rat" where
  "toDouble x =
     (if x = 0 then 0
      else
        (let a = \<bar>x\<bar>;
             e = max (binade a) (- 1022);
             ulp = 2 powi (e - 52)
         in sgn x * of_int (roundHalfEven (a / ulp)) * ulp))"

text \<open>
  The handler of lines 703-731 again, with the arithmetic of doubles: \<open>v\<close> is the double
  the handler receives, \<^verbatim>\<open>v * 100\<close> and \<^verbatim>\<open>(i / (numDays - 1)) * 100\<close> are rounded after
  each operation (\<open>i\<close> and \<open>numDays - 1\<close> are integers, which are doubles as they are).
  As above, \<open>None\<close> is the NaN of \<open>0 / 0\<close>.
\<close>

definition dayPosition_double :: "int \<Rightarrow> int \<Rightarrow> rat option" where
  "dayPosition_double i numDays =
     (if numDays - 1 = 0 then None
      else Some (toDouble (toDouble (of_int i / of_int (numDays - 1)) * 100)))"

definition geDouble :: "rat \<Rightarrow> rat option \<Rightarrow> bool" where
  "geDouble x y = (case y of None \<Rightarrow> False | Some p \<Rightarrow> x \<ge> p)"

function scanDays_double :: "int \<Rightarrow> int \<Rightarrow> rat \<Rightarrow> int" where
  "scanDays_double i numDays progressPercent =
     (if i \<ge> 0 then
        (if geDouble progressPercent (dayPosition_double i numDays) then i
         else scanDays_double (i - 1) numDays progressPercent)
      else 0)"
  by pat_completeness auto
termination
  by (relation "measure (\<lambda>(i, numDays, progressPercent). nat (i + 1))") auto

definition onProgressChange_double ::
  "string list \<Rightarrow> detail_section list \<Rightarrow> rat \<Rightarrow> detail_state \<Rightarrow> detail_state" where
  "onProgressChange_double detailDays detailSections v s =
     (let numDays = int (length detailDays);
          progressPercent = toDouble (v * 100);
          newActiveDay = scanDays_double (numDays - 1) numDays progressPercent;
          s1 = s\<lparr>activeDay := newActiveDay\<rparr>;
          sectionIndex = findIndex (\<lambda>sec. newActiveDay \<in> set (section_days sec)) detailSections
      in if sectionIndex \<noteq> - 1 then s1\<lparr>activeSection_detail := sectionIndex\<rparr> else s1)"

section \<open>Notions of the specification\<close>

text \<open>
  The scheduler's total as the specification words it: the sum of \<open>durationDays\<close> over
  the enabled phases. A value that is not a phase, and a missing duration, count 0.
\<close>

definition phaseDays :: "phase_value \<Rightarrow> int" where
  "phaseDays p = (case p of PhaseObj c d \<Rightarrow> (if c then orZero d else 0) | Malformed \<Rightarrow> 0)"

definition enabledDays :: "(string \<times> phase_value) list \<Rightarrow> int" where
  "enabledDays entries = sum_list (map (\<lambda>e. phaseDays (snd e)) entries)"

text \<open>
  Marker \<open>i\<close> of \<open>N\<close> evenly spaced markers qualifies at progress \<open>v\<close> when its position
  \<^verbatim>\<open>i / (N - 1) * 100\<close> is at most \<^verbatim>\<open>v * 100\<close>, both computed in doubles as the handler
  computes them.
\<close>

definition qualifies_double :: "int \<Rightarrow> rat \<Rightarrow> int \<Rightarrow> bool" where
  "qualifies_double N v i =
     (0 \<le> i \<and> i < N
      \<and> toDouble (toDouble (of_int i / of_int (N - 1)) * 100) \<le> toDouble (v * 100))"

text \<open>
  The outline's active marker as an index: the position of the active section's id in
  \<^verbatim>\<open>OUTLINE_SECTIONS\<close> (-1 when it is not the id of a section). A click is on a valid
  marker when its id is the id of a section.
\<close>

definition markerIndex :: "string \<Rightarrow> int" where
  "markerIndex sid = findIndex (\<lambda>sec. fst sec = sid) OUTLINE_SECTIONS"

fun validMarker :: "spy_event \<Rightarrow> bool" where
  "validMarker (Click sid t) = (sid \<in> set (map fst OUTLINE_SECTIONS))"
| "validMarker ev = True"

section \<open>Initial states and concrete inputs\<close>

text \<open>The initial \<^verbatim>\<open>masterChecks\<close> and \<^verbatim>\<open>timeline\<close> states of the page (lines 1061-1090).\<close>

definition masterChecksInit :: "(string \<times> phase_value) list" where
  "masterChecksInit =
     [(''unit'', PhaseObj True (Some 0)),
      (''functional'', PhaseObj True (Some 0)),
      (''regression'', PhaseObj True (Some 0)),
      (''load'', PhaseObj False (Some 0)),
      (''volume'', PhaseObj False (Some 0)),
      (''acceptance'', PhaseObj True (Some 0)),
      (''usability'', PhaseObj True (Some 0))]"

definition pageInit :: page_state where
  "pageInit = \<lparr>timeline = \<lparr>start = '''', end' = '''', dependencies = ''''\<rparr>, console = []\<rparr>"

text \<open>A page whose timeline was filled in by hand.\<close>

definition pageEdited :: page_state where
  "pageEdited =
     \<lparr>timeline = \<lparr>start = ''2024-05-01'', end' = ''2024-05-10'', dependencies = ''env''\<rparr>,
      console = []\<rparr>"

text \<open>The phases of the specification's example, and a single phase of five days.\<close>

definition phasesAB :: "(string \<times> phase_value) list" where
  "phasesAB = [(''A'', PhaseObj True (Some 3)), (''B'', PhaseObj False (Some 100))]"

definition phaseA5 :: "(string \<times> phase_value) list" where
  "phaseA5 = [(''A'', PhaseObj True (Some 5))]"

text \<open>
  A document in which every section heading exists, a click whose element and container
  exist, and the geometry of a container scrolled to its top: only the first heading is
  above the threshold.
\<close>

definition allElements :: "string list" where
  "allElements = elementsOf (\<lambda>sid. True)"

definition clickTarget :: jump_target where
  "clickTarget = \<lparr>elementPresent = True, containerPresent = True, elementRectTop = 900,
                  containerRectTop = 60, containerScrollTop = 0\<rparr>"

definition atTop :: scroll_geometry where
  "atTop = \<lparr>scrollTop = 0, scrollHeight = 3000, clientHeight = 700, containerTop = 60,
            rectTop = (\<lambda>sid. if sid = ''meta'' then 100
                             else if sid = ''scope'' then 600
                             else if sid = ''checklists'' then 1200
                             else if sid = ''schedule'' then 1900 else 2500)\<rparr>"

text \<open>
  Two clicks 500 ms apart, and 700 ms more: 1200 ms after the first click, 700 ms after
  the second.
\<close>

definition twoClicks :: "spy_event list" where
  "twoClicks =
     [Click ''scope'' clickTarget, Elapse 500, Click ''schedule'' clickTarget, Elapse 700]"

text \<open>A click, and 900 ms later a click on another section.\<close>

definition clickThenClick :: "spy_event list" where
  "clickThenClick =
     [Click ''checklists'' clickTarget, Elapse 900, Click ''comments'' clickTarget]"


text \<open>The doubles just below 0.2, 0.4 and 0.8, and the double written 0.6.\<close>

definition below02 :: rat where
  "below02 = 7205759403792793 / 36028797018963968"

definition below04 :: rat where
  "below04 = 7205759403792793 / 18014398509481984"

definition double06 :: rat where
  "double06 = 5404319552844595 / 9007199254740992"

definition below08 :: rat where
  "below08 = 7205759403792793 / 9007199254740992"

section \<open>Properties of addBusinessDays\<close>

declare addBusinessDays_loop.simps [simp del]

lemma addBusinessDays_loop_exit:
  "\<not> daysAdded < numberOfDays \<Longrightarrow>
   addBusinessDays_loop result daysAdded numberOfDays = result"
  by (subst addBusinessDays_loop.simps) simp

lemma addBusinessDays_loop_weekday:
  "daysAdded < numberOfDays \<Longrightarrow> getDay (result + 1) \<noteq> 0 \<and> getDay (result + 1) \<noteq> 6 \<Longrightarrow>
   addBusinessDays_loop result daysAdded numberOfDays
     = addBusinessDays_loop (result + 1) (daysAdded + 1) numberOfDays"
  by (subst addBusinessDays_loop.simps) (simp add: Let_def)

lemma addBusinessDays_loop_weekend:
  "daysAdded < numberOfDays \<Longrightarrow> \<not> (getDay (result + 1) \<noteq> 0 \<and> getDay (result + 1) \<noteq> 6) \<Longrightarrow>
   addBusinessDays_loop result daysAdded numberOfDays
     = addBusinessDays_loop (result + 1) daysAdded numberOfDays"
  by (subst addBusinessDays_loop.simps) (auto simp add: Let_def)

text \<open>The loop only moves forward.\<close>

lemma addBusinessDays_loop_mono:
  "result \<le> addBusinessDays_loop result daysAdded numberOfDays"
proof (induction result daysAdded numberOfDays rule: addBusinessDays_loop.induct)
  case (1 result daysAdded numberOfDays)
  show ?case
  proof (cases "daysAdded < numberOfDays")
    case False
    then show ?thesis by (simp add: addBusinessDays_loop_exit)
  next
    case True
    show ?thesis
    proof (cases "getDay (result + 1) \<noteq> 0 \<and> getDay (result + 1) \<noteq> 6")
      case wd: True
      from "1.IH"(1) [OF True refl refl wd]
      have "result + 1 \<le> addBusinessDays_loop (result + 1) (daysAdded + 1) numberOfDays" .
      then show ?thesis by (simp add: addBusinessDays_loop_weekday [OF True wd])
    next
      case we: False
      from "1.IH"(2) [OF True refl refl we]
      have "result + 1 \<le> addBusinessDays_loop (result + 1) daysAdded numberOfDays" .
      then show ?thesis by (simp add: addBusinessDays_loop_weekend [OF True we])
    qed
  qed
qed

lemma businessDaysBetween_step:
  "r + 1 \<le> r' \<Longrightarrow>
   businessDaysBetween r r'
     = (if isWeekend (r + 1) then 0 else 1) + businessDaysBetween (r + 1) r'"
  unfolding businessDaysBetween_def
  by (subst upto_rec1) (auto simp add: add.commute)

lemma businessDaysBetween_self: "businessDaysBetween r r = 0"
  by (simp add: businessDaysBetween_def)

text \<open>
  Loop invariant: the days still to be added are exactly the business days the loop
  steps over from its current date.
\<close>

lemma addBusinessDays_loop_count:
  "daysAdded \<le> numberOfDays \<Longrightarrow>
   businessDaysBetween result (addBusinessDays_loop result daysAdded numberOfDays)
     = numberOfDays - daysAdded"
proof (induction result daysAdded numberOfDays rule: addBusinessDays_loop.induct)
  case (1 result daysAdded numberOfDays)
  show ?case
  proof (cases "daysAdded < numberOfDays")
    case False
    with "1.prems" show ?thesis
      by (simp add: addBusinessDays_loop_exit businessDaysBetween_self)
  next
    case True
    show ?thesis
    proof (cases "getDay (result + 1) \<noteq> 0 \<and> getDay (result + 1) \<noteq> 6")
      case wd: True
      let ?r = "addBusinessDays_loop (result + 1) (daysAdded + 1) numberOfDays"
      from "1.IH"(1) [OF True refl refl wd] True
      have "businessDaysBetween (result + 1) ?r = numberOfDays - (daysAdded + 1)" by simp
      moreover have "result + 1 \<le> ?r" by (rule addBusinessDays_loop_mono)
      ultimately show ?thesis using wd
        by (simp add: addBusinessDays_loop_weekday [OF True wd] businessDaysBetween_step
            isWeekend_def)
    next
      case we: False
      let ?r = "addBusinessDays_loop (result + 1) daysAdded numberOfDays"
      from "1.IH"(2) [OF True refl refl we] True
      have "businessDaysBetween (result + 1) ?r = numberOfDays - daysAdded" by simp
      moreover have "result + 1 \<le> ?r" by (rule addBusinessDays_loop_mono)
      ultimately show ?thesis using we
        by (auto simp add: addBusinessDays_loop_weekend [OF True we] businessDaysBetween_step
            isWeekend_def)
    qed
  qed
qed

text \<open>When the loop runs at all, it stops on the day it has just counted.\<close>

lemma addBusinessDays_loop_not_weekend:
  "daysAdded < numberOfDays \<Longrightarrow>
   \<not> isWeekend (addBusinessDays_loop result daysAdded numberOfDays)"
proof (induction result daysAdded numberOfDays rule: addBusinessDays_loop.induct)
  case (1 result daysAdded numberOfDays)
  note lt = "1.prems"
  show ?case
  proof (cases "getDay (result + 1) \<noteq> 0 \<and> getDay (result + 1) \<noteq> 6")
    case wd: True
    let ?r = "addBusinessDays_loop (result + 1) (daysAdded + 1) numberOfDays"
    show ?thesis
    proof (cases "daysAdded + 1 < numberOfDays")
      case True
      from "1.IH"(1) [OF lt refl refl wd True] show ?thesis
        by (simp add: addBusinessDays_loop_weekday [OF lt wd])
    next
      case False
      then have "?r = result + 1" by (rule addBusinessDays_loop_exit)
      with wd show ?thesis
        by (simp add: addBusinessDays_loop_weekday [OF lt wd] isWeekend_def)
    qed
  next
    case we: False
    from "1.IH"(2) [OF lt refl refl we lt] show ?thesis
      by (simp add: addBusinessDays_loop_weekend [OF lt we])
  qed
qed

text \<open>
  C1, as stated: for every date \<open>d\<close> and every \<open>n \<ge> 0\<close> the result is not a Saturday or
  Sunday. It fails for \<open>n = 0\<close>: the loop does not run and the start date is returned
  as it is, here Saturday 2024-06-01 (day 19875).
\<close>

theorem addBusinessDays_zero_on_saturday:
  "(0::int) \<le> 0 \<and> addBusinessDays 19875 0 = 19875 \<and> getDay 19875 = 6
   \<and> isWeekend (addBusinessDays 19875 0)"
  by (simp add: addBusinessDays_def addBusinessDays_loop_exit isWeekend_def getDay_def)

text \<open>
  C1, amended: for every date \<open>d\<close> and every integer \<open>n \<ge> 0\<close>, exactly \<open>n\<close> non-weekend
  days lie between \<open>d\<close> (exclusive) and \<open>addBusinessDays d n\<close> (inclusive); for \<open>n \<ge> 1\<close>
  the result is not a Saturday or Sunday; for \<open>n = 0\<close> the result is \<open>d\<close> itself,
  weekend or not.
\<close>

theorem addBusinessDays_correct:
  "0 \<le> n \<Longrightarrow>
     businessDaysBetween d (addBusinessDays d n) = n
     \<and> (0 < n \<longrightarrow> \<not> isWeekend (addBusinessDays d n))
     \<and> (n = 0 \<longrightarrow> addBusinessDays d n = d)"
  unfolding addBusinessDays_def
  using addBusinessDays_loop_count [of 0 n d] addBusinessDays_loop_not_weekend [of 0 n d]
  by (simp add: addBusinessDays_loop_exit)

theorem addBusinessDays_correct_witness:
  "(0::int) \<le> 5
   \<and> businessDaysBetween 19875 (addBusinessDays 19875 5) = 5
   \<and> \<not> isWeekend (addBusinessDays 19875 5)"
  using addBusinessDays_correct [of 5 19875] by simp

section \<open>Properties of the timeline effect\<close>

lemma foldl_reducer: "foldl reducer a (map snd entries) = a + enabledDays entries"
  by (induction entries arbitrary: a)
     (auto simp add: enabledDays_def reducer_def phaseDays_def split: phase_value.splits)

lemma totalTestDays_Some: "totalTestDays (Some entries) = Inr (enabledDays entries)"
  by (simp add: totalTestDays_def foldl_reducer)

lemma tryBlock_Some:
  "tryBlock (Some entries) reviewDays today s =
     (if 0 < enabledDays entries + orZero reviewDays
      then Inr (s\<lparr>timeline := (timeline s)\<lparr>start := formatDateToInput today,
              end' := formatDateToInput
                       (addBusinessDays today (enabledDays entries + orZero reviewDays))\<rparr>\<rparr>)
      else Inr s)"
  by (simp add: tryBlock_def totalTestDays_Some Let_def)


lemma timelineEffect_Some:
  "timelineEffect (Some entries) reviewDays today s =
     (if 0 < enabledDays entries + orZero reviewDays
      then s\<lparr>timeline := (timeline s)\<lparr>start := formatDateToInput today,
              end' := formatDateToInput
                       (addBusinessDays today (enabledDays entries + orZero reviewDays))\<rparr>\<rparr>
      else s)"
  by (simp add: timelineEffect_def tryBlock_Some)

text \<open>Saturday 2024-06-01 is day 19875; five business days later is Friday 2024-06-07.\<close>

lemma formatDateToInput_19875: "formatDateToInput 19875 = ''2024-06-01''"
  by code_simp

lemma formatDateToInput_19881: "formatDateToInput 19881 = ''2024-06-07''"
  by code_simp

lemma addBusinessDays_19875_5: "addBusinessDays 19875 5 = 19881"
  by code_simp

text \<open>
  C6: when the durations of the enabled phases plus the review days total 0, the effect
  produces no output: the state, and with it the stored start and end, is exactly as
  before.
\<close>

theorem timelineEffect_zero_total:
  "enabledDays entries + orZero reviewDays = 0 \<Longrightarrow>
   timelineEffect (Some entries) reviewDays today s = s"
  by (simp add: timelineEffect_Some)

theorem timelineEffect_zero_total_witness:
  "enabledDays masterChecksInit + orZero (Some 0) = 0
   \<and> timelineEffect (Some masterChecksInit) (Some 0) 19875 pageEdited = pageEdited
   \<and> start (timeline pageEdited) = ''2024-05-01''
   \<and> end' (timeline pageEdited) = ''2024-05-10''"
proof -
  have h: "enabledDays masterChecksInit + orZero (Some 0) = 0"
    by (simp add: enabledDays_def masterChecksInit_def phaseDays_def orZero_def)
  from timelineEffect_zero_total [OF h] h show ?thesis by (simp add: pageEdited_def)
qed

text \<open>
  C7: the total the effect computes is the sum of the durations of the enabled phases
  (plus the review days); a disabled phase adds nothing, whatever its duration; two
  inputs with the same total give the same schedule; and phases A (enabled, 3 days) and
  B (disabled, 100 days) with 2 review days give the schedule of a single enabled phase
  of 5 days with no review days.
\<close>

theorem totalDays_enabled_only:
  "totalTestDays (Some entries) = Inr (enabledDays entries)
   \<and> enabledDays (before @ (name, PhaseObj False d) # after) = enabledDays (before @ after)
   \<and> (enabledDays e1 + orZero r1 = enabledDays e2 + orZero r2 \<longrightarrow>
        timelineEffect (Some e1) r1 today s = timelineEffect (Some e2) r2 today s)
   \<and> timelineEffect (Some phasesAB) (Some 2) today s
      = timelineEffect (Some phaseA5) (Some 0) today s"
proof (intro conjI impI)
  show "totalTestDays (Some entries) = Inr (enabledDays entries)"
    by (rule totalTestDays_Some)
  show "enabledDays (before @ (name, PhaseObj False d) # after) = enabledDays (before @ after)"
    by (simp add: enabledDays_def phaseDays_def)
  show "timelineEffect (Some e1) r1 today s = timelineEffect (Some e2) r2 today s"
    if "enabledDays e1 + orZero r1 = enabledDays e2 + orZero r2"
    using that by (simp add: timelineEffect_Some)
  show "timelineEffect (Some phasesAB) (Some 2) today s
      = timelineEffect (Some phaseA5) (Some 0) today s"
    by (simp add: timelineEffect_Some enabledDays_def phaseDays_def orZero_def phasesAB_def
        phaseA5_def)
qed

theorem totalDays_enabled_only_witness:
  "enabledDays phasesAB + orZero (Some 2) = enabledDays phaseA5 + orZero (Some 0)
   \<and> timelineEffect (Some phasesAB) (Some 2) 19875 pageInit
      = timelineEffect (Some phaseA5) (Some 0) 19875 pageInit
   \<and> timelineEffect (Some phaseA5) (Some 0) 19875 pageInit
      = \<lparr>timeline = \<lparr>start = ''2024-06-01'', end' = ''2024-06-07'', dependencies = ''''\<rparr>,
         console = []\<rparr>"
proof -
  have h: "enabledDays phasesAB + orZero (Some 2) = enabledDays phaseA5 + orZero (Some 0)"
    by (simp add: enabledDays_def phaseDays_def orZero_def phasesAB_def phaseA5_def)
  have v: "timelineEffect (Some phaseA5) (Some 0) 19875 pageInit
      = \<lparr>timeline = \<lparr>start = ''2024-06-01'', end' = ''2024-06-07'', dependencies = ''''\<rparr>,
         console = []\<rparr>"
    by (simp add: timelineEffect_Some enabledDays_def phaseDays_def orZero_def phaseA5_def
        addBusinessDays_19875_5 formatDateToInput_19875 formatDateToInput_19881 pageInit_def)
  from totalDays_enabled_only [where ?e1.0 = phasesAB and ?r1.0 = "Some 2" and ?e2.0 = phaseA5
      and ?r2.0 = "Some 0" and today = 19875 and s = pageInit] h v
  show ?thesis by simp
qed




text \<open>
  C10: when the total is positive, the effect overwrites the start and the end of the
  timeline and nothing else: the dependencies keep their value.
\<close>

theorem timelineEffect_keeps_dependencies:
  "0 < enabledDays entries + orZero reviewDays \<Longrightarrow>
   timelineEffect (Some entries) reviewDays today s
     = s\<lparr>timeline := (timeline s)\<lparr>start := formatDateToInput today,
            end' := formatDateToInput
                     (addBusinessDays today (enabledDays entries + orZero reviewDays))\<rparr>\<rparr>
   \<and> dependencies (timeline (timelineEffect (Some entries) reviewDays today s))
       = dependencies (timeline s)"
  by (simp add: timelineEffect_Some)

theorem timelineEffect_keeps_dependencies_witness:
  "0 < enabledDays [(''unit'', PhaseObj True (Some 4)), (''load'', PhaseObj True None)]
         + orZero (Some 1)
   \<and> timelineEffect (Some [(''unit'', PhaseObj True (Some 4)), (''load'', PhaseObj True None)])
         (Some 1) 19875 pageEdited
       = \<lparr>timeline = \<lparr>start = ''2024-06-01'', end' = ''2024-06-07'', dependencies = ''env''\<rparr>,
          console = []\<rparr>"
proof -
  have e: "enabledDays [(''unit'', PhaseObj True (Some 4)), (''load'', PhaseObj True None)]
             + orZero (Some 1) = 5"
    by (simp add: enabledDays_def phaseDays_def orZero_def)
  then have h: "0 < enabledDays [(''unit'', PhaseObj True (Some 4)),
      (''load'', PhaseObj True None)] + orZero (Some 1)"
    by simp
  from timelineEffect_keeps_dependencies [OF h, of 19875 pageEdited] h show ?thesis
    by (simp add: e addBusinessDays_19875_5 formatDateToInput_19875 formatDateToInput_19881
        pageEdited_def)
qed

section \<open>Properties of the scroll progress handler\<close>

declare scanDays.simps [simp del]

lemma scanDays_exit: "\<not> 0 \<le> i \<Longrightarrow> scanDays i numDays pp = 0"
  by (subst scanDays.simps) simp

lemma scanDays_hit:
  "0 \<le> i \<Longrightarrow> geNumber pp (dayPosition i numDays) \<Longrightarrow> scanDays i numDays pp = i"
  by (subst scanDays.simps) simp

lemma scanDays_miss:
  "0 \<le> i \<Longrightarrow> \<not> geNumber pp (dayPosition i numDays) \<Longrightarrow>
   scanDays i numDays pp = scanDays (i - 1) numDays pp"
  by (subst scanDays.simps) simp

text \<open>Whatever the progress and the number of markers, the result is between 0 and \<open>i\<close>.\<close>

lemma scanDays_range:
  "- 1 \<le> i \<Longrightarrow> 0 \<le> scanDays i numDays pp \<and> scanDays i numDays pp \<le> max 0 i"
proof (induction i numDays pp rule: scanDays.induct)
  case (1 i numDays pp)
  show ?case
  proof (cases "0 \<le> i")
    case False
    then show ?thesis by (simp add: scanDays_exit)
  next
    case True
    show ?thesis
    proof (cases "geNumber pp (dayPosition i numDays)")
      case g: True
      with True show ?thesis by (simp add: scanDays_hit)
    next
      case g: False
      from "1.IH" [OF True g] True
      have "0 \<le> scanDays (i - 1) numDays pp \<and> scanDays (i - 1) numDays pp \<le> max 0 (i - 1)"
        by simp
      with True show ?thesis unfolding scanDays_miss [OF True g] by linarith
    qed
  qed
qed

lemma activeDay_onProgressChange:
  "activeDay (onProgressChange detailDays detailSections v s)
     = scanDays (int (length detailDays) - 1) (int (length detailDays)) (v * 100)"
  by (simp add: onProgressChange_def Let_def)

text \<open>
  C3, as stated: six markers and the progress sequence 0.05, 0.25, 0.45, 0.65, 0.85, 0.99
  give the active markers 0, 1, 2, 3, 4, 5. They do not: at 0.99 the bar has not reached
  the position of the last marker (100), and the active marker is still 4.
\<close>

theorem progress_sequence_not_0_to_5:
  "activeDaySequence [5 / 100, 25 / 100, 45 / 100, 65 / 100, 85 / 100, 99 / 100] detailInit
     \<noteq> [0, 1, 2, 3, 4, 5]"
  by code_simp

text \<open>
  C3, amended: six markers and the progress sequence 0.05, 0.25, 0.45, 0.65, 0.85, 0.99
  give the active markers 0, 1, 2, 3, 4, 4.
\<close>

theorem progress_sequence_0_to_4:
  "activeDaySequence [5 / 100, 25 / 100, 45 / 100, 65 / 100, 85 / 100, 99 / 100] detailInit
     = [0, 1, 2, 3, 4, 4]"
  by code_simp

lemma activeDay_runProgress:
  "1 \<le> length detailDays \<Longrightarrow>
   0 \<le> activeDay s \<and> activeDay s \<le> int (length detailDays) - 1 \<Longrightarrow>
   0 \<le> activeDay (runProgress detailDays detailSections vs s)
   \<and> activeDay (runProgress detailDays detailSections vs s) \<le> int (length detailDays) - 1"
proof (induction vs arbitrary: s)
  case Nil
  then show ?case by (simp add: runProgress_def)
next
  case (Cons v vs)
  let ?s = "onProgressChange detailDays detailSections v s"
  from Cons.prems(1) have m: "max 0 (int (length detailDays) - 1) = int (length detailDays) - 1"
    by (cases detailDays) simp_all
  from scanDays_range [of "int (length detailDays) - 1" "int (length detailDays)" "v * 100"]
  have "0 \<le> activeDay ?s \<and> activeDay ?s \<le> int (length detailDays) - 1"
    unfolding activeDay_onProgressChange m by simp
  from Cons.IH [OF Cons.prems(1) this] show ?case by (simp add: runProgress_def)
qed

section \<open>Properties of the scroll progress handler over doubles\<close>

declare binadeUp.simps [simp del] binadeDown.simps [simp del] scanDays_double.simps [simp del]

lemma binadeUp_bound: "1 \<le> a \<Longrightarrow> 2 powi (binadeUp a) \<le> a"
proof (induction a rule: binadeUp.induct)
  case (1 a)
  show ?case
  proof (cases "2 \<le> a")
    case True
    then have "1 \<le> a / 2" by simp
    from "1.IH" [OF True this] have "2 powi (binadeUp (a / 2)) \<le> a / 2" .
    then have "2 powi (binadeUp (a / 2) + 1) \<le> a" by (simp add: power_int_add)
    with True show ?thesis by (subst binadeUp.simps) simp
  next
    case False
    with "1.prems" show ?thesis by (subst binadeUp.simps) simp
  qed
qed

lemma binadeDown_bound: "0 < a \<Longrightarrow> a < 1 \<Longrightarrow> 2 powi (binadeDown a) \<le> a"
proof (induction a rule: binadeDown.induct)
  case (1 a)
  from "1.prems" have c: "0 < a \<and> a < 1" by simp
  have eq: "binadeDown a = binadeDown (a * 2) - 1"
    using c by (subst binadeDown.simps) simp
  show ?case
  proof (cases "a * 2 < 1")
    case True
    from "1.IH" [OF c _ True] c have "2 powi (binadeDown (a * 2)) \<le> a * 2" by simp
    then show ?thesis unfolding eq by (simp add: power_int_diff)
  next
    case False
    then have "binadeDown (a * 2) = 0" by (subst binadeDown.simps) simp
    with False show ?thesis unfolding eq by simp
  qed
qed

lemma binade_bound: "0 < a \<Longrightarrow> 2 powi (binade a) \<le> a"
  using binadeUp_bound [of a] binadeDown_bound [of a] by (simp add: binade_def)

lemma roundHalfEven_ge_floor: "\<lfloor>q\<rfloor> \<le> roundHalfEven q"
  by (simp add: roundHalfEven_def Let_def)

text \<open>Rounding keeps the sign, and no number from the smallest double up rounds to 0.\<close>

lemma toDouble_nonneg: "0 \<le> x \<Longrightarrow> 0 \<le> toDouble x"
proof -
  assume x: "0 \<le> x"
  show ?thesis
  proof (cases "x = 0")
    case True
    then show ?thesis by (simp add: toDouble_def)
  next
    case False
    with x have pos: "0 < x" by simp
    define ulp :: rat where "ulp = 2 powi (max (binade x) (- 1022) - 52)"
    have u: "0 < ulp" by (simp add: ulp_def)
    then have "0 \<le> x / ulp" using pos by simp
    then have "0 \<le> \<lfloor>x / ulp\<rfloor>" by simp
    with roundHalfEven_ge_floor [of "x / ulp"] have "0 \<le> roundHalfEven (x / ulp)" by linarith
    then have "0 \<le> of_int (roundHalfEven (x / ulp)) * ulp" using u by simp
    with pos show ?thesis by (simp add: toDouble_def Let_def ulp_def)
  qed
qed

lemma toDouble_positive:
  assumes x: "2 powi (- 1074) \<le> x"
  shows "2 powi (- 1074) \<le> toDouble x"
proof -
  have m: "(0::rat) < 2 powi (- 1074)" by simp
  with x have pos: "0 < x" by linarith
  define e where "e = max (binade x) (- 1022)"
  define ulp :: rat where "ulp = 2 powi (e - 52)"
  have u: "0 < ulp" by (simp add: ulp_def)
  have lo: "2 powi (- 1074) \<le> ulp"
    unfolding ulp_def by (rule power_int_increasing) (simp_all add: e_def)
  have le: "ulp \<le> x"
  proof (cases "- 1022 \<le> binade x")
    case True
    then have "e = binade x" by (simp add: e_def)
    then have "ulp \<le> 2 powi (binade x)"
      unfolding ulp_def by (intro power_int_increasing) simp_all
    with binade_bound [OF pos] show ?thesis by linarith
  next
    case False
    then have "e = - 1022" by (simp add: e_def)
    then have "ulp = 2 powi (- 1074)" by (simp add: ulp_def)
    with x show ?thesis by simp
  qed
  then have "1 \<le> x / ulp" using u by (simp add: le_divide_eq)
  then have "1 \<le> \<lfloor>x / ulp\<rfloor>" by (simp add: le_floor_iff)
  with roundHalfEven_ge_floor [of "x / ulp"] have "1 \<le> roundHalfEven (x / ulp)" by linarith
  then have "(1::rat) \<le> of_int (roundHalfEven (x / ulp))" by simp
  then have "ulp \<le> of_int (roundHalfEven (x / ulp)) * ulp" using u by simp
  with lo have "2 powi (- 1074) \<le> of_int (roundHalfEven (x / ulp)) * ulp" by linarith
  with pos show ?thesis by (simp add: toDouble_def Let_def ulp_def e_def)
qed

lemma toDouble_0: "toDouble 0 = 0"
  by (simp add: toDouble_def)

lemma toDouble_1: "toDouble 1 = 1"
  by code_simp

lemma scanDays_double_exit: "\<not> 0 \<le> i \<Longrightarrow> scanDays_double i numDays pp = 0"
  by (subst scanDays_double.simps) simp

lemma scanDays_double_hit:
  "0 \<le> i \<Longrightarrow> geDouble pp (dayPosition_double i numDays) \<Longrightarrow>
   scanDays_double i numDays pp = i"
  by (subst scanDays_double.simps) simp

lemma scanDays_double_miss:
  "0 \<le> i \<Longrightarrow> \<not> geDouble pp (dayPosition_double i numDays) \<Longrightarrow>
   scanDays_double i numDays pp = scanDays_double (i - 1) numDays pp"
  by (subst scanDays_double.simps) simp

text \<open>When no marker from \<open>i\<close> down passes the comparison, the loop ends without a break.\<close>

lemma scanDays_double_none:
  "\<forall>j. 0 \<le> j \<and> j \<le> i \<longrightarrow> \<not> geDouble pp (dayPosition_double j numDays) \<Longrightarrow>
   scanDays_double i numDays pp = 0"
proof (induction i numDays pp rule: scanDays_double.induct)
  case (1 i numDays pp)
  show ?case
  proof (cases "0 \<le> i")
    case False
    then show ?thesis by (rule scanDays_double_exit)
  next
    case True
    with "1.prems" have no: "\<not> geDouble pp (dayPosition_double i numDays)" by simp
    have "scanDays_double (i - 1) numDays pp = 0"
      using "1.IH" [OF True no] "1.prems" by simp
    then show ?thesis by (simp add: scanDays_double_miss [OF True no])
  qed
qed

text \<open>The loop breaks at the first marker, from \<open>i\<close> down, that passes the comparison.\<close>

lemma scanDays_double_found:
  "0 \<le> k \<Longrightarrow> k \<le> i \<Longrightarrow> geDouble pp (dayPosition_double k numDays) \<Longrightarrow>
   \<forall>j. k < j \<and> j \<le> i \<longrightarrow> \<not> geDouble pp (dayPosition_double j numDays) \<Longrightarrow>
   scanDays_double i numDays pp = k"
proof (induction i numDays pp rule: scanDays_double.induct)
  case (1 i numDays pp)
  from "1.prems" have i0: "0 \<le> i" by simp
  show ?case
  proof (cases "i = k")
    case True
    with "1.prems" scanDays_double_hit [OF i0] show ?thesis by simp
  next
    case False
    with "1.prems" have lt: "k < i" by simp
    with "1.prems" have no: "\<not> geDouble pp (dayPosition_double i numDays)" by simp
    have "scanDays_double (i - 1) numDays pp = k"
      using "1.IH" [OF i0 no] "1.prems" lt by simp
    then show ?thesis by (simp add: scanDays_double_miss [OF i0 no])
  qed
qed

lemma geDouble_dayPosition:
  "2 \<le> N \<Longrightarrow> 0 \<le> i \<Longrightarrow> i < N \<Longrightarrow>
   geDouble (toDouble (v * 100)) (dayPosition_double i N) = qualifies_double N v i"
  by (simp add: geDouble_def dayPosition_double_def qualifies_double_def)

lemma scanDays_double_greatest:
  assumes N: "2 \<le> N"
  shows "if (\<exists>i. qualifies_double N v i)
         then qualifies_double N v (scanDays_double (N - 1) N (toDouble (v * 100)))
              \<and> (\<forall>i. qualifies_double N v i
                     \<longrightarrow> i \<le> scanDays_double (N - 1) N (toDouble (v * 100)))
         else scanDays_double (N - 1) N (toDouble (v * 100)) = 0"
proof (cases "\<exists>i. qualifies_double N v i")
  case False
  have "\<forall>j. 0 \<le> j \<and> j \<le> N - 1 \<longrightarrow> \<not> geDouble (toDouble (v * 100)) (dayPosition_double j N)"
  proof (intro allI impI)
    fix j
    assume "0 \<le> j \<and> j \<le> N - 1"
    then have "geDouble (toDouble (v * 100)) (dayPosition_double j N) = qualifies_double N v j"
      using N by (intro geDouble_dayPosition) simp_all
    with False show "\<not> geDouble (toDouble (v * 100)) (dayPosition_double j N)" by simp
  qed
  from scanDays_double_none [OF this] False show ?thesis by simp
next
  case True
  let ?S = "{i. qualifies_double N v i}"
  have fin: "finite ?S"
  proof (rule finite_subset)
    show "?S \<subseteq> {0..N}" by (auto simp add: qualifies_double_def)
  qed simp
  from True have ne: "?S \<noteq> {}" by auto
  define k where "k = Max ?S"
  have kin: "k \<in> ?S" unfolding k_def by (rule Max_in [OF fin ne])
  have kmax: "\<And>i. i \<in> ?S \<Longrightarrow> i \<le> k" unfolding k_def by (rule Max_ge [OF fin])
  from kin have kq: "qualifies_double N v k" by simp
  then have k0: "0 \<le> k" and kN: "k \<le> N - 1" by (simp_all add: qualifies_double_def)
  have hit: "geDouble (toDouble (v * 100)) (dayPosition_double k N)"
    using kq geDouble_dayPosition [OF N k0, of v] kN by simp
  have above: "\<forall>j. k < j \<and> j \<le> N - 1 \<longrightarrow>
      \<not> geDouble (toDouble (v * 100)) (dayPosition_double j N)"
  proof (intro allI impI notI)
    fix j
    assume j: "k < j \<and> j \<le> N - 1"
      and g: "geDouble (toDouble (v * 100)) (dayPosition_double j N)"
    from j k0 have "geDouble (toDouble (v * 100)) (dayPosition_double j N) = qualifies_double N v j"
      using N by (intro geDouble_dayPosition) simp_all
    with g have "j \<in> ?S" by simp
    from kmax [OF this] j show False by simp
  qed
  have "scanDays_double (N - 1) N (toDouble (v * 100)) = k"
    by (rule scanDays_double_found [OF k0 kN hit above])
  with kq kmax True show ?thesis by auto
qed

lemma activeDay_onProgressChange_double:
  "activeDay (onProgressChange_double detailDays detailSections v s)
     = scanDays_double (int (length detailDays) - 1) (int (length detailDays))
         (toDouble (v * 100))"
  by (simp add: onProgressChange_double_def Let_def)

text \<open>The positions of the markers above the first are positive doubles.\<close>

lemma dayPosition_double_positive:
  assumes N: "2 \<le> N" "N < 2 ^ 32" and j: "0 < j" "j \<le> N - 1"
  shows "0 < toDouble (toDouble (of_int j / of_int (N - 1)) * 100)"
proof -
  have tiny: "(2::rat) powi (- 1074) \<le> 2 powi (- 32)"
    by (rule power_int_increasing) simp_all
  have "(of_int (N - 1) :: rat) \<le> 2 ^ 32" using N by (simp flip: of_int_le_iff)
  moreover have "(0::rat) < of_int (N - 1)" using N by simp
  ultimately have "1 / (2 ^ 32 :: rat) \<le> 1 / of_int (N - 1)"
    by (intro divide_left_mono) simp_all
  also have "\<dots> \<le> of_int j / of_int (N - 1)"
    using j N by (intro divide_right_mono) simp_all
  finally have "(2::rat) powi (- 32) \<le> of_int j / of_int (N - 1)"
    by (simp add: power_int_minus_divide)
  with tiny have "(2::rat) powi (- 1074) \<le> of_int j / of_int (N - 1)" by linarith
  from toDouble_positive [OF this]
  have a: "(2::rat) powi (- 1074) \<le> toDouble (of_int j / of_int (N - 1))" .
  have p: "(0::rat) < 2 powi (- 1074)" by simp
  with a have "(2::rat) powi (- 1074) \<le> toDouble (of_int j / of_int (N - 1)) * 100"
    by linarith
  from toDouble_positive [OF this] p show ?thesis by linarith
qed

text \<open>
  Six markers: the quotients \<^verbatim>\<open>i / 5\<close> as doubles, and the positions, which are exactly
  0, 20, 40, 60, 80 and 100.
\<close>

lemma toDouble_fifths:
  "toDouble (1 / 5) = 3602879701896397 / 18014398509481984"
  "toDouble (2 / 5) = 3602879701896397 / 9007199254740992"
  "toDouble (3 / 5) = 5404319552844595 / 9007199254740992"
  "toDouble (4 / 5) = 3602879701896397 / 4503599627370496"
  by code_simp+

lemma toDouble_positions:
  "toDouble (3602879701896397 / 18014398509481984 * 100) = 20"
  "toDouble (3602879701896397 / 9007199254740992 * 100) = 40"
  "toDouble (5404319552844595 / 9007199254740992 * 100) = 60"
  "toDouble (3602879701896397 / 4503599627370496 * 100) = 80"
  "toDouble (1 * 100) = 100"
  by code_simp+

lemma dayPosition_double_6:
  "dayPosition_double 0 6 = Some 0"
  "dayPosition_double 1 6 = Some 20"
  "dayPosition_double 2 6 = Some 40"
  "dayPosition_double 3 6 = Some 60"
  "dayPosition_double 4 6 = Some 80"
  "dayPosition_double 5 6 = Some 100"
proof -
  show "dayPosition_double 0 6 = Some 0"
    by (simp add: dayPosition_double_def toDouble_0)
  have "dayPosition_double 1 6 = Some (toDouble (toDouble (1 / 5) * 100))"
    by (simp add: dayPosition_double_def)
  then show "dayPosition_double 1 6 = Some 20"
    unfolding toDouble_fifths toDouble_positions .
  have "dayPosition_double 2 6 = Some (toDouble (toDouble (2 / 5) * 100))"
    by (simp add: dayPosition_double_def)
  then show "dayPosition_double 2 6 = Some 40"
    unfolding toDouble_fifths toDouble_positions .
  have "dayPosition_double 3 6 = Some (toDouble (toDouble (3 / 5) * 100))"
    by (simp add: dayPosition_double_def)
  then show "dayPosition_double 3 6 = Some 60"
    unfolding toDouble_fifths toDouble_positions .
  have "dayPosition_double 4 6 = Some (toDouble (toDouble (4 / 5) * 100))"
    by (simp add: dayPosition_double_def)
  then show "dayPosition_double 4 6 = Some 80"
    unfolding toDouble_fifths toDouble_positions .
  have "dayPosition_double 5 6 = Some (toDouble (toDouble 1 * 100))"
    by (simp add: dayPosition_double_def)
  then show "dayPosition_double 5 6 = Some 100"
    unfolding toDouble_1 toDouble_positions .
qed

text \<open>The loop over six markers, unrolled.\<close>

lemma scanDays_double_6:
  "scanDays_double 5 6 pp =
     (if 100 \<le> pp then 5 else if 80 \<le> pp then 4 else if 60 \<le> pp then 3
      else if 40 \<le> pp then 2 else if 20 \<le> pp then 1 else 0)"
  by (simp add: scanDays_double.simps [of 5 6] scanDays_double.simps [of 4 6]
      scanDays_double.simps [of 3 6] scanDays_double.simps [of 2 6]
      scanDays_double.simps [of 1 6] scanDays_double.simps [of 0 6]
      scanDays_double.simps [of "- 1" 6] geDouble_def dayPosition_double_6)

text \<open>
  The handler over doubles takes the four doubles at which exact arithmetic would decide
  otherwise to the next marker: the product \<^verbatim>\<open>v * 100\<close> rounds up to the position.
\<close>

lemma toDouble_at_boundaries:
  "toDouble (below02 * 100) = 20"
  "toDouble (below04 * 100) = 40"
  "toDouble (double06 * 100) = 60"
  "toDouble (below08 * 100) = 80"
  by code_simp+

lemma onProgressChange_double_at_boundaries:
  "below02 < 1 / 5 \<and> below04 < 2 / 5 \<and> double06 < 3 / 5 \<and> below08 < 4 / 5
   \<and> activeDay (onProgressChange_double DETAIL_DAYS DETAIL_SECTIONS below02 detailInit) = 1
   \<and> activeDay (onProgressChange_double DETAIL_DAYS DETAIL_SECTIONS below04 detailInit) = 2
   \<and> activeDay (onProgressChange_double DETAIL_DAYS DETAIL_SECTIONS double06 detailInit) = 3
   \<and> activeDay (onProgressChange_double DETAIL_DAYS DETAIL_SECTIONS below08 detailInit) = 4"
  by (simp add: activeDay_onProgressChange_double DETAIL_DAYS_def scanDays_double_6
      toDouble_at_boundaries)
     (simp add: below02_def below04_def double06_def below08_def)

text \<open>
  C4: with \<open>N \<ge> 2\<close> markers (a JavaScript array has fewer than \<open>2 ^ 32\<close> elements), an
  update with progress \<open>v\<close> sets the active marker to the highest index \<open>i\<close> with
  \<^verbatim>\<open>i / (N - 1) * 100 <= v * 100\<close>, the comparison of doubles the handler makes, and to
  0 when no index qualifies (for \<open>v \<ge> 0\<close> index 0 does); at progress 0 it is index 0
  and at progress 1 it is the last index \<open>N - 1\<close>. The handler has no override mode: it
  recomputes on every update.
\<close>

theorem onProgressChange_double_highest_marker:
  "2 \<le> length detailDays \<Longrightarrow> length detailDays < 2 ^ 32 \<Longrightarrow> - 1 \<le> v \<Longrightarrow> v \<le> 1 \<Longrightarrow>
     ((\<exists>i. qualifies_double (int (length detailDays)) v i) \<longrightarrow>
        qualifies_double (int (length detailDays)) v
          (activeDay (onProgressChange_double detailDays detailSections v s))
        \<and> (\<forall>i. qualifies_double (int (length detailDays)) v i \<longrightarrow>
               i \<le> activeDay (onProgressChange_double detailDays detailSections v s)))
     \<and> (\<not> (\<exists>i. qualifies_double (int (length detailDays)) v i) \<longrightarrow>
          activeDay (onProgressChange_double detailDays detailSections v s) = 0)
     \<and> (0 \<le> v \<longrightarrow> qualifies_double (int (length detailDays)) v 0)
     \<and> activeDay (onProgressChange_double detailDays detailSections 0 s) = 0
     \<and> activeDay (onProgressChange_double detailDays detailSections 1 s)
         = int (length detailDays) - 1"
proof -
  assume len: "2 \<le> length detailDays" and len32: "length detailDays < 2 ^ 32"
  define N where "N = int (length detailDays)"
  from len have N: "2 \<le> N" by (simp add: N_def)
  from len32 have N32: "N < 2 ^ 32" unfolding N_def by (simp flip: of_nat_less_iff)
  have a: "if (\<exists>i. qualifies_double N v i)
        then qualifies_double N v (scanDays_double (N - 1) N (toDouble (v * 100)))
             \<and> (\<forall>i. qualifies_double N v i
                    \<longrightarrow> i \<le> scanDays_double (N - 1) N (toDouble (v * 100)))
        else scanDays_double (N - 1) N (toDouble (v * 100)) = 0"
    by (rule scanDays_double_greatest [OF N])
  have b: "0 \<le> v \<longrightarrow> qualifies_double N v 0"
    using N toDouble_nonneg [of "v * 100"] by (simp add: qualifies_double_def toDouble_0)
  have c: "scanDays_double (N - 1) N (toDouble (0 * 100)) = 0"
  proof (rule scanDays_double_found)
    show "geDouble (toDouble (0 * 100)) (dayPosition_double 0 N)"
      using N by (simp add: geDouble_def dayPosition_double_def toDouble_0)
    show "\<forall>j. 0 < j \<and> j \<le> N - 1 \<longrightarrow>
        \<not> geDouble (toDouble (0 * 100)) (dayPosition_double j N)"
    proof (intro allI impI)
      fix j
      assume j: "0 < j \<and> j \<le> N - 1"
      from dayPosition_double_positive [OF N N32, of j] j
      have "0 < toDouble (toDouble (of_int j / of_int (N - 1)) * 100)" by simp
      then show "\<not> geDouble (toDouble (0 * 100)) (dayPosition_double j N)"
        using N by (simp add: geDouble_def dayPosition_double_def toDouble_0 not_le)
    qed
  qed (use N in simp_all)
  have d: "scanDays_double (N - 1) N (toDouble (1 * 100)) = N - 1"
  proof (rule scanDays_double_hit)
    have "(of_int (N - 1) :: rat) / of_int (N - 1) = 1" using N by simp
    then show "geDouble (toDouble (1 * 100)) (dayPosition_double (N - 1) N)"
      using N by (simp add: geDouble_def dayPosition_double_def toDouble_1)
  qed (use N in simp)
  from a b c d show ?thesis
    unfolding activeDay_onProgressChange_double N_def [symmetric]
    by (simp split: if_splits)
qed

theorem onProgressChange_double_highest_marker_witness:
  "2 \<le> length DETAIL_DAYS \<and> length DETAIL_DAYS < 2 ^ 32 \<and> - 1 \<le> below02 \<and> below02 \<le> 1
   \<and> qualifies_double 6 below02
        (activeDay (onProgressChange_double DETAIL_DAYS DETAIL_SECTIONS below02 detailInit))
   \<and> activeDay (onProgressChange_double DETAIL_DAYS DETAIL_SECTIONS below02 detailInit) = 1
   \<and> activeDay (onProgressChange_double DETAIL_DAYS DETAIL_SECTIONS 0 detailInit) = 0
   \<and> activeDay (onProgressChange_double DETAIL_DAYS DETAIL_SECTIONS 1 detailInit) = 5"
proof -
  have len: "2 \<le> length DETAIL_DAYS" and len32: "length DETAIL_DAYS < 2 ^ 32"
    by (simp_all add: DETAIL_DAYS_def)
  have n: "int (length DETAIL_DAYS) = 6" by (simp add: DETAIL_DAYS_def)
  have lo: "- 1 \<le> below02" and hi: "below02 \<le> 1" and nn: "0 \<le> below02"
    by (simp_all add: below02_def)
  let ?r = "activeDay (onProgressChange_double DETAIL_DAYS DETAIL_SECTIONS below02 detailInit)"
  note t = onProgressChange_double_highest_marker [OF len len32 lo hi,
      where detailSections = DETAIL_SECTIONS and s = detailInit, unfolded n]
  from t nn have "\<exists>i. qualifies_double 6 below02 i" by blast
  with t have r1: "qualifies_double 6 below02 ?r" by blast
  have r2: "?r = 1" using onProgressChange_double_at_boundaries by blast
  from t
  have z: "activeDay (onProgressChange_double DETAIL_DAYS DETAIL_SECTIONS 0 detailInit) = 0"
    by blast
  from t
  have e: "activeDay (onProgressChange_double DETAIL_DAYS DETAIL_SECTIONS 1 detailInit) = 6 - 1"
    by blast
  from len len32 lo hi r1 r2 z e show ?thesis by simp
qed

text \<open>Over doubles as well, the result of the loop is between 0 and \<open>i\<close>.\<close>

lemma scanDays_double_range:
  "- 1 \<le> i \<Longrightarrow> 0 \<le> scanDays_double i numDays pp \<and> scanDays_double i numDays pp \<le> max 0 i"
proof (induction i numDays pp rule: scanDays_double.induct)
  case (1 i numDays pp)
  show ?case
  proof (cases "0 \<le> i")
    case False
    then show ?thesis by (simp add: scanDays_double_exit)
  next
    case True
    show ?thesis
    proof (cases "geDouble pp (dayPosition_double i numDays)")
      case g: True
      with True show ?thesis by (simp add: scanDays_double_hit)
    next
      case g: False
      from "1.IH" [OF True g] True
      have "0 \<le> scanDays_double (i - 1) numDays pp
          \<and> scanDays_double (i - 1) numDays pp \<le> max 0 (i - 1)"
        by simp
      with True show ?thesis unfolding scanDays_double_miss [OF True g] by linarith
    qed
  qed
qed

section \<open>Properties of the outline scroll-spy\<close>

lemma spyRun_Nil: "spyRun elements [] s = s"
  by (simp add: spyRun_def)

lemma spyRun_Cons: "spyRun elements (ev # evs) s = spyRun elements evs (spyStep elements s ev)"
  by (simp add: spyRun_def)

lemma activeSection_elapse: "activeSection (elapse dt s) = activeSection s"
  by (simp add: elapse_def Let_def)

lemma firstAtOrAbove_mem: "firstAtOrAbove topOf threshold es = Some e \<Longrightarrow> e \<in> set es"
  by (induction es) (auto split: if_splits)

lemma last_OUTLINE: "fst (last OUTLINE_SECTIONS) = ''comments''"
  by (simp add: OUTLINE_SECTIONS_def)

lemma ids_OUTLINE:
  "map fst OUTLINE_SECTIONS = [''meta'', ''scope'', ''checklists'', ''schedule'', ''comments'']"
  by (simp add: OUTLINE_SECTIONS_def)

text \<open>Which section an event can make active.\<close>

lemma activeSection_autoDetect:
  "activeSection (autoDetect elements g s) \<in> {activeSection s, ''comments''} \<union> set elements"
  by (auto simp add: autoDetect_def last_OUTLINE Let_def
      split: option.splits list.splits dest: firstAtOrAbove_mem)

lemma activeSection_handleScroll:
  "activeSection (handleScroll elements g s) \<in> {activeSection s, ''comments''} \<union> set elements"
  using activeSection_autoDetect [of elements g s] by (simp add: handleScroll_def)

lemma activeSection_scrollToSection:
  "activeSection (scrollToSection sid t s) \<in> {activeSection s, sid}"
  by (simp add: scrollToSection_def Let_def)

lemma set_elementsOf: "set (elementsOf present) \<subseteq> set (map fst OUTLINE_SECTIONS)"
  by (auto simp add: elementsOf_def)

lemma spyStep_valid:
  assumes "activeSection s \<in> I" and "\<And>sid t. ev = Click sid t \<Longrightarrow> sid \<in> I"
    and "set elements \<subseteq> I" and "''comments'' \<in> I"
  shows "activeSection (spyStep elements s ev) \<in> I"
proof (cases ev)
  case (Elapse dt)
  with assms(1) show ?thesis by (simp add: activeSection_elapse)
next
  case (Click sid t)
  with assms(1) assms(2) [OF Click] activeSection_scrollToSection [of sid t s]
  show ?thesis by auto
next
  case (ScrollEvent g)
  with assms(1,3,4) activeSection_handleScroll [of elements g s] show ?thesis by auto
qed

lemma spyRun_valid:
  "activeSection s \<in> I \<Longrightarrow> \<forall>ev\<in>set evs. \<forall>sid t. ev = Click sid t \<longrightarrow> sid \<in> I \<Longrightarrow>
   set elements \<subseteq> I \<Longrightarrow> ''comments'' \<in> I \<Longrightarrow>
   activeSection (spyRun elements evs s) \<in> I"
proof (induction evs arbitrary: s)
  case Nil
  then show ?case by (simp add: spyRun_Nil)
next
  case (Cons ev evs)
  from Cons.prems have "activeSection (spyStep elements s ev) \<in> I"
    by (intro spyStep_valid) simp_all
  from Cons.IH [OF this] Cons.prems show ?case by (simp add: spyRun_Cons)
qed

lemma validMarker_Click:
  "validMarker ev \<Longrightarrow> ev = Click sid t \<Longrightarrow> sid \<in> set (map fst OUTLINE_SECTIONS)"
  by (simp del: set_map)

lemma findIndex_bounds: "- 1 \<le> findIndex P xs \<and> findIndex P xs \<le> int (length xs) - 1"
  by (induction xs) (simp_all add: Let_def)

lemma findIndex_found: "\<exists>x\<in>set xs. P x \<Longrightarrow> 0 \<le> findIndex P xs"
proof (induction xs)
  case Nil
  then show ?case by simp
next
  case (Cons a xs)
  show ?case
  proof (cases "P a")
    case True
    then show ?thesis by simp
  next
    case False
    with Cons.prems have "\<exists>x\<in>set xs. P x" by simp
    from Cons.IH [OF this] False show ?thesis by (simp add: Let_def)
  qed
qed

lemma markerIndex_range:
  "sid \<in> set (map fst OUTLINE_SECTIONS) \<Longrightarrow>
   0 \<le> markerIndex sid \<and> markerIndex sid \<le> int (length OUTLINE_SECTIONS) - 1"
proof -
  assume "sid \<in> set (map fst OUTLINE_SECTIONS)"
  then have "\<exists>sec\<in>set OUTLINE_SECTIONS. fst sec = sid" by auto
  from findIndex_found [OF this] findIndex_bounds [of "\<lambda>sec. fst sec = sid" OUTLINE_SECTIONS]
  show ?thesis by (simp add: markerIndex_def)
qed

text \<open>
  C9: the active marker is a marker at all times. On the detail screen, with at least
  one day marker, the active day is between 0 and \<open>N - 1\<close> after initialisation and after
  any sequence of progress updates, whatever the progress values (also outside [0,1]).
  In the outline, after any sequence of scroll events, elapsed time and clicks on
  section ids, the active section is one of the sections: its index is between 0 and
  the last index.
\<close>

theorem activeMarker_in_range:
  "1 \<le> length detailDays \<Longrightarrow> \<forall>ev\<in>set evs. validMarker ev \<Longrightarrow>
     0 \<le> activeDay (runProgress detailDays detailSections vs detailInit)
     \<and> activeDay (runProgress detailDays detailSections vs detailInit)
         \<le> int (length detailDays) - 1
     \<and> 0 \<le> markerIndex (activeSection (spyRun (elementsOf present) evs spyInit))
     \<and> markerIndex (activeSection (spyRun (elementsOf present) evs spyInit))
         \<le> int (length OUTLINE_SECTIONS) - 1"
proof -
  assume len: "1 \<le> length detailDays" and valid: "\<forall>ev\<in>set evs. validMarker ev"
  have "0 \<le> activeDay detailInit \<and> activeDay detailInit \<le> int (length detailDays) - 1"
    using len by (cases detailDays) (simp_all add: detailInit_def)
  note d = activeDay_runProgress [OF len this, of detailSections vs]
  have "activeSection spyInit \<in> set (map fst OUTLINE_SECTIONS)"
    by (simp add: spyInit_def ids_OUTLINE)
  moreover have "\<forall>ev\<in>set evs. \<forall>sid t. ev = Click sid t \<longrightarrow> sid \<in> set (map fst OUTLINE_SECTIONS)"
    using valid validMarker_Click by blast
  moreover have "''comments'' \<in> set (map fst OUTLINE_SECTIONS)" by (simp add: ids_OUTLINE)
  ultimately
  have "activeSection (spyRun (elementsOf present) evs spyInit) \<in> set (map fst OUTLINE_SECTIONS)"
    using set_elementsOf by (intro spyRun_valid)
  note m = markerIndex_range [OF this]
  from d m show ?thesis by simp
qed

theorem activeMarker_in_range_witness:
  "1 \<le> length DETAIL_DAYS
   \<and> list_all validMarker [Click ''schedule'' clickTarget, Elapse 400, ScrollEvent atTop]
   \<and> activeDay (runProgress DETAIL_DAYS DETAIL_SECTIONS [2] detailInit) = 5
   \<and> activeDay (runProgress DETAIL_DAYS DETAIL_SECTIONS [2, - (1 / 2)] detailInit) = 0
   \<and> 0 \<le> activeDay (runProgress DETAIL_DAYS DETAIL_SECTIONS [2, 3 / 10] detailInit)
   \<and> activeDay (runProgress DETAIL_DAYS DETAIL_SECTIONS [2, 3 / 10] detailInit) \<le> 5
   \<and> markerIndex (activeSection (spyRun allElements
        [Click ''schedule'' clickTarget, Elapse 400, ScrollEvent atTop] spyInit)) = 3
   \<and> int (length OUTLINE_SECTIONS) - 1 = 4"
proof -
  have len: "1 \<le> length DETAIL_DAYS" by (simp add: DETAIL_DAYS_def)
  have n: "int (length DETAIL_DAYS) = 6" by (simp add: DETAIL_DAYS_def)
  have valid:
    "\<forall>ev\<in>set [Click ''schedule'' clickTarget, Elapse 400, ScrollEvent atTop]. validMarker ev"
    by (simp add: OUTLINE_SECTIONS_def)
  have a: "activeDay (runProgress DETAIL_DAYS DETAIL_SECTIONS [2] detailInit) = 5"
    by code_simp
  have b: "activeDay (runProgress DETAIL_DAYS DETAIL_SECTIONS [2, - (1 / 2)] detailInit) = 0"
    by code_simp
  have c: "markerIndex (activeSection (spyRun allElements
        [Click ''schedule'' clickTarget, Elapse 400, ScrollEvent atTop] spyInit)) = 3"
    by code_simp
  have l: "int (length OUTLINE_SECTIONS) - 1 = 4" by (simp add: OUTLINE_SECTIONS_def)
  from activeMarker_in_range [OF len valid, of DETAIL_SECTIONS "[2, 3 / 10]"] len valid a b c n l
  show ?thesis by simp
qed

text \<open>
  C5: after a click on section \<open>K\<close> the active section is \<open>K\<close> at once, and it should
  stay \<open>K\<close> under scroll events for the 1000 ms that follow. It does not when the
  callback of an earlier click is still pending, since that callback is never
  cancelled: with a click at 0 ms and a click on \<open>comments\<close> at 900 ms, \<open>comments\<close> is
  active at once, but at 1100 ms, 200 ms into its window, the callback of the first
  click has lowered the flag (the second is due at 1900 ms) and a scroll event makes
  \<open>meta\<close> the active section.
\<close>

theorem second_click_overridden_in_window:
  "activeSection (spyRun allElements clickThenClick spyInit) = ''comments''
   \<and> isManualScrollRef (spyRun allElements clickThenClick spyInit)
   \<and> now (spyRun allElements (clickThenClick @ [Elapse 200]) spyInit) = 1100
   \<and> timers (spyRun allElements (clickThenClick @ [Elapse 200]) spyInit) = [1900]
   \<and> \<not> isManualScrollRef (spyRun allElements (clickThenClick @ [Elapse 200]) spyInit)
   \<and> activeSection
        (spyRun allElements (clickThenClick @ [Elapse 200, ScrollEvent atTop]) spyInit)
       = ''meta''"
  by (simp add: spyRun_def spyInit_def clickThenClick_def scrollToSection_def elapse_def
      handleScroll_def autoDetect_def allElements_def elementsOf_def OUTLINE_SECTIONS_def
      clickTarget_def atTop_def Let_def)

text \<open>
  C2: a second click before the first window has expired should keep automatic detection
  suppressed until 1000 ms after the second click. The code does not cancel the callback
  of the first click: with clicks at 0 ms and 500 ms, at 1200 ms the callback of the
  first click has run, the flag is down although the callback of the second click (due
  at 1500 ms) is still pending, and a scroll event moves the active section away from
  the section clicked last.
\<close>

theorem stale_callback_ends_second_override:
  "now (spyRun allElements twoClicks spyInit) = 1200
   \<and> timers (spyRun allElements twoClicks spyInit) = [1500]
   \<and> activeSection (spyRun allElements twoClicks spyInit) = ''schedule''
   \<and> \<not> isManualScrollRef (spyRun allElements twoClicks spyInit)
   \<and> activeSection (spyRun allElements (twoClicks @ [ScrollEvent atTop]) spyInit) = ''meta''"
  by (simp add: spyRun_def spyInit_def twoClicks_def scrollToSection_def elapse_def
      handleScroll_def autoDetect_def allElements_def elementsOf_def OUTLINE_SECTIONS_def
      clickTarget_def atTop_def Let_def)

end
